theory Spec2Isabelle
  imports Main "HOL-Library.AList"
begin

section \<open>Data model of GraphQLQueryRunner\<close>

text \<open>
  A \<open>RelayQuery.Root\<close>, as far as the runner reads it: \<open>getID()\<close>, \<open>getName()\<close>,
  \<open>isDeferred()\<close> and \<open>hasDeferredDescendant()\<close>.
\<close>

type_synonym queryID = string

record query =
  getID :: queryID
  getName :: string
  isDeferred :: bool
  hasDeferredDescendant :: bool

text \<open>The values of \<open>DliteFetchModeConstants\<close>; \<open>run\<close> takes an optional one.\<close>

datatype FetchMode = FETCH_MODE_CLIENT | FETCH_MODE_PRELOAD | FETCH_MODE_REFETCH

text \<open>The reason of a rejected fetch (a JavaScript \<open>Error\<close>, never null).\<close>

type_synonym Error = string

text \<open>What the runner itself throws: a failed \<open>invariant(...)\<close>.\<close>

datatype exn = InvariantViolation string

text \<open>What \<open>warning(false, ...)\<close> reports: the name of the query it is called with.\<close>

datatype warning = DeferredNotSupported string

record ReadyState =
  rs_aborted :: bool
  rs_done :: bool
  rs_error :: "Error option"
  rs_ready :: bool
  rs_stale :: bool

text \<open>\<open>PartialReadyState\<close>: every field is optional; \<open>None\<close> is an absent field.\<close>

record PartialReadyState =
  p_aborted :: "bool option"
  p_done :: "bool option"
  p_error :: "Error option"
  p_ready :: "bool option"
  p_stale :: "bool option"

definition noPartial :: PartialReadyState where
  "noPartial = \<lparr>p_aborted = None, p_done = None, p_error = None, p_ready = None, p_stale = None\<rparr>"

text \<open>
  A \<open>PendingFetch\<close> of \<open>RelayPendingQueryTracker\<close>: the parameters it was created with
  and a serial number standing for the identity of the instance.
\<close>

record PendingFetch =
  pf_query :: query
  pf_fetchMode :: FetchMode
  pf_forceIndex :: "nat option"
  pf_serial :: nat

record QueryRunnerProfiles =
  pr_done :: string
  pr_initialize :: string
  pr_ready :: string

type_synonym fetchMap = "(queryID \<times> PendingFetch) list"

text \<open>
  The closure of one \<open>runQueries\<close> call: its parameters, its local variables
  (\<open>readyState\<close>, \<open>scheduled\<close>, the two maps) and the bookkeeping of what it has handed to
  its surroundings: whether the task given to \<open>RelayTaskScheduler.await\<close> is still to run,
  how many callbacks given to \<open>runWithDiskCache\<close> and to \<open>resolveImmediate\<close> are still to
  run, the states the caller's \<open>callback\<close> was invoked with, the arguments of every
  \<open>setReadyState\<close> call, the profiles stopped, and the exceptions nobody caught.
\<close>

record runner =
  queries :: "query list"
  fetchMode :: FetchMode
  profilers :: QueryRunnerProfiles
  readyState :: ReadyState
  scheduled :: bool
  remainingFetchMap :: fetchMap
  remainingRequiredFetchMap :: fetchMap
  taskPending :: bool
  diskPending :: nat
  immediates :: nat
  delivered :: "ReadyState list"
  emitted :: "PartialReadyState list"
  stopped :: "string list"
  uncaught :: "exn list"

text \<open>
  What is shared by all invocations: the registry of pending fetches, the fetches it has
  started, the parameters of every \<open>add\<close> call, the counter behind \<open>generateForceIndex\<close>,
  the warnings printed and the queries handed to \<open>splitDeferredRelayQueries\<close>.
\<close>

record world =
  pendingFetches :: fetchMap
  started :: "PendingFetch list"
  requested :: "(query \<times> FetchMode \<times> nat option) list"
  forceIndexCounter :: nat
  warnings :: "warning list"
  splitCalls :: "query list"

text \<open>
  The collaborators the runner calls and does not define: \<open>RelayNetworkLayer.supports\<close>,
  \<open>diffRelayQuery\<close> (applied to the record store and the query tracker),
  \<open>splitDeferredRelayQueries\<close> and \<open>flattenSplitRelayQueries\<close>.
\<close>

record 'sp collaborators =
  supports :: "string \<Rightarrow> bool"
  diffRelayQuery :: "query \<Rightarrow> query list"
  splitDeferredRelayQueries :: "query \<Rightarrow> 'sp"
  flattenSplitRelayQueries :: "'sp \<Rightarrow> query list"

text \<open>A throw keeps the closure as the throwing statement found it.\<close>

type_synonym 'a result = "(exn \<times> 'a) + 'a"

definition stateOf :: "'a result \<Rightarrow> 'a" where
  "stateOf x = (case x of Inl (e, r) \<Rightarrow> r | Inr r \<Rightarrow> r)"

section \<open>Collaborators modelled from the specification\<close>

text \<open>
  Modelled from the spec: \<open>RelayPendingQueryTracker.add\<close> is not among the sources. The
  specification (4.1) says: if a \<open>PendingFetch\<close> for an equivalent query identity is
  already outstanding, \<open>add\<close> returns the same instance; otherwise it constructs a new
  one, begins its underlying fetch and returns it.
\<close>

definition trackerAdd :: "query \<Rightarrow> FetchMode \<Rightarrow> nat option \<Rightarrow> world \<Rightarrow> PendingFetch \<times> world" where
  "trackerAdd q m fi w =
     (let w1 = w\<lparr>requested := requested w @ [(q, m, fi)]\<rparr> in
      case map_of (pendingFetches w1) (getID q) of
        Some pf \<Rightarrow> (pf, w1)
      | None \<Rightarrow>
          (let pf = \<lparr>pf_query = q, pf_fetchMode = m, pf_forceIndex = fi,
                     pf_serial = length (started w1)\<rparr>
           in (pf, w1\<lparr>pendingFetches := AList.update (getID q) pf (pendingFetches w1),
                      started := started w1 @ [pf]\<rparr>)))"

text \<open>
  Modelled from the spec: the completion listener of the registry is not among the
  sources. The specification (4.1) says that it removes the entry from the registry when
  the fetch settles.
\<close>

definition trackerSettle :: "PendingFetch \<Rightarrow> world \<Rightarrow> world" where
  "trackerSettle pf w =
     (if map_of (pendingFetches w) (getID (pf_query pf)) = Some pf
      then w\<lparr>pendingFetches := AList.delete (getID (pf_query pf)) (pendingFetches w)\<rparr>
      else w)"

text \<open>
  Modelled from the spec: \<open>generateForceIndex\<close> is not among the sources. The
  specification (3) calls its result an opaque monotonically-increasing tag, null only
  in CLIENT mode: a counter, read and advanced.
\<close>

definition generateForceIndex :: "world \<Rightarrow> nat \<times> world" where
  "generateForceIndex w = (forceIndexCounter w, w\<lparr>forceIndexCounter := Suc (forceIndexCounter w)\<rparr>)"

section \<open>The helpers of the module\<close>

definition canResolve :: "(query \<Rightarrow> bool) \<Rightarrow> PendingFetch \<Rightarrow> bool" where
  "canResolve checkRelayQueryData fetch = checkRelayQueryData (pf_query fetch)"

definition hasItems :: "fetchMap \<Rightarrow> bool" where
  "hasItems m = (length (map fst m) \<noteq> 0)"

definition createProfiles :: "FetchMode \<Rightarrow> QueryRunnerProfiles" where
  "createProfiles fm =
     (let profileName = (if fm = FETCH_MODE_REFETCH then ''forceFetch'' else ''primeCache'') in
      \<lparr>pr_done = ''GraphQLQueryRunner.'' @ profileName @ ''.done'',
       pr_initialize = ''GraphQLQueryRunner.'' @ profileName,
       pr_ready = ''GraphQLQueryRunner.'' @ profileName @ ''.ready''\<rparr>)"

text \<open>
  \<open>queries.some(...)\<close> of \<open>splitAndFlattenQueries\<close>: it stops at the first query with a
  deferred descendant, after the warning for that query.
\<close>

fun someDeferredDescendant :: "query list \<Rightarrow> bool \<times> warning list" where
  "someDeferredDescendant [] = (False, [])"
| "someDeferredDescendant (q # qs) =
     (if hasDeferredDescendant q then (True, [DeferredNotSupported (getName q)])
      else someDeferredDescendant qs)"

text \<open>The \<open>queries.forEach\<close> of \<open>splitAndFlattenQueries\<close>.\<close>

fun flattenEach :: "'sp collaborators \<Rightarrow> query list \<Rightarrow> query list" where
  "flattenEach c [] = []"
| "flattenEach c (q # qs) =
     flattenSplitRelayQueries c (splitDeferredRelayQueries c q) @ flattenEach c qs"

definition splitAndFlattenQueries ::
  "'sp collaborators \<Rightarrow> query list \<Rightarrow> world \<Rightarrow> query list \<times> world" where
  "splitAndFlattenQueries c qs w =
     (if \<not> supports c ''defer'' then
        (case someDeferredDescendant qs of (has, ws) \<Rightarrow>
           (let w1 = w\<lparr>warnings := warnings w @ ws\<rparr> in
            if has then (qs, w1)
            else (flattenEach c qs, w1\<lparr>splitCalls := splitCalls w1 @ qs\<rparr>)))
      else (flattenEach c qs, w\<lparr>splitCalls := splitCalls w @ qs\<rparr>))"

section \<open>The ready state machine\<close>

text \<open>The object literal that \<open>setReadyState\<close> assigns to \<open>readyState\<close>.\<close>

definition mergeReadyState :: "ReadyState \<Rightarrow> PartialReadyState \<Rightarrow> ReadyState" where
  "mergeReadyState s p =
     \<lparr>rs_aborted = (case p_aborted p of Some b \<Rightarrow> b | None \<Rightarrow> rs_aborted s),
      rs_done = (case p_done p of Some b \<Rightarrow> b | None \<Rightarrow> rs_done s),
      rs_error = (case p_error p of Some e \<Rightarrow> Some e | None \<Rightarrow> rs_error s),
      rs_ready = (case p_ready p of Some b \<Rightarrow> b | None \<Rightarrow> rs_ready s),
      rs_stale = (case p_stale p of Some b \<Rightarrow> b | None \<Rightarrow> rs_stale s)\<rparr>"

definition setReadyState :: "PartialReadyState \<Rightarrow> runner \<Rightarrow> runner result" where
  "setReadyState partial r0 =
     (let r = r0\<lparr>emitted := emitted r0 @ [partial]\<rparr> in
      if rs_aborted (readyState r) then Inr r
      else if rs_done (readyState r) \<or> rs_error (readyState r) \<noteq> None then
        (if p_aborted partial = Some True then Inr r
         else Inl (InvariantViolation ''GraphQLQueryRunner: Unexpected ready state change.'', r))
      else
        (let r1 = (if p_ready partial = Some True \<and> \<not> rs_ready (readyState r)
                   then r\<lparr>stopped := stopped r @ [pr_ready (profilers r)]\<rparr> else r);
             r2 = (if p_done partial = Some True \<and> \<not> rs_done (readyState r1)
                   then r1\<lparr>stopped := stopped r1 @ [pr_done (profilers r1)]\<rparr> else r1);
             r3 = r2\<lparr>readyState := mergeReadyState (readyState r2) partial\<rparr>
         in if scheduled r3 then Inr r3
            else Inr (r3\<lparr>scheduled := True, immediates := Suc (immediates r3)\<rparr>)))"

text \<open>The callback that \<open>setReadyState\<close> hands to \<open>resolveImmediate\<close>, when it runs.\<close>

definition immediate :: "runner \<Rightarrow> runner" where
  "immediate r =
     (if immediates r = 0 then r
      else r\<lparr>immediates := immediates r - 1, scheduled := False,
              delivered := delivered r @ [readyState r]\<rparr>)"

section \<open>Settlement of a pending fetch\<close>

definition onResolved :: "(PendingFetch \<Rightarrow> bool) \<Rightarrow> PendingFetch \<Rightarrow> runner \<Rightarrow> runner result" where
  "onResolved isResolvable pendingFetch r =
     (let pendingQuery = pf_query pendingFetch;
          pendingQueryID = getID pendingQuery;
          r1 = r\<lparr>remainingFetchMap := AList.delete pendingQueryID (remainingFetchMap r)\<rparr>;
          r2 = (if \<not> isDeferred pendingQuery
                then r1\<lparr>remainingRequiredFetchMap :=
                          AList.delete pendingQueryID (remainingRequiredFetchMap r1)\<rparr>
                else r1)
      in if hasItems (remainingRequiredFetchMap r2) then Inr r2
         else if list_ex (\<lambda>(k, fetch). isResolvable fetch) (remainingFetchMap r2) then Inr r2
         else if hasItems (remainingFetchMap r2)
           then setReadyState (noPartial\<lparr>p_done := Some False, p_ready := Some True,
                                          p_stale := Some False\<rparr>) r2
           else setReadyState (noPartial\<lparr>p_done := Some True, p_ready := Some True,
                                          p_stale := Some False\<rparr>) r2)"

definition onRejected :: "PendingFetch \<Rightarrow> Error \<Rightarrow> runner \<Rightarrow> runner result" where
  "onRejected pendingFetch err r =
     (case setReadyState (noPartial\<lparr>p_error := Some err\<rparr>) r of
        Inl x \<Rightarrow> Inl x
      | Inr r0 \<Rightarrow>
          (let pendingQuery = pf_query pendingFetch;
               pendingQueryID = getID pendingQuery;
               r1 = r0\<lparr>remainingFetchMap := AList.delete pendingQueryID (remainingFetchMap r0)\<rparr>
           in if \<not> isDeferred pendingQuery
              then Inr (r1\<lparr>remainingRequiredFetchMap :=
                             AList.delete pendingQueryID (remainingRequiredFetchMap r1)\<rparr>)
              else Inr r1))"

section \<open>runQueries, run and forceFetch\<close>

text \<open>One round of the \<open>forEach\<close> in the task given to \<open>RelayTaskScheduler.await\<close>.\<close>

definition registerQuery ::
  "FetchMode \<Rightarrow> nat option \<Rightarrow> world \<times> runner \<Rightarrow> query \<Rightarrow> world \<times> runner" where
  "registerQuery fm forceIndex s q =
     (case s of (w, r) \<Rightarrow>
        (case trackerAdd q fm forceIndex w of (pendingFetch, w1) \<Rightarrow>
           (let queryID = getID q;
                r1 = r\<lparr>remainingFetchMap := AList.update queryID pendingFetch (remainingFetchMap r)\<rparr>;
                r2 = (if \<not> isDeferred q
                      then r1\<lparr>remainingRequiredFetchMap :=
                                AList.update queryID pendingFetch (remainingRequiredFetchMap r1)\<rparr>
                      else r1)
            in (w1, r2))))"

text \<open>The task given to \<open>RelayTaskScheduler.await\<close>, when the scheduler runs it.\<close>

definition registration :: "'sp collaborators \<Rightarrow> world \<times> runner \<Rightarrow> world \<times> runner result" where
  "registration c s =
     (case s of (w, r) \<Rightarrow>
        (case (if fetchMode r = FETCH_MODE_REFETCH
               then (case generateForceIndex w of (n, w0) \<Rightarrow> (Some n, w0))
               else (None, w)) of (forceIndex, w1) \<Rightarrow>
           (case splitAndFlattenQueries c (queries r) w1 of (qs, w2) \<Rightarrow>
              (case foldl (registerQuery (fetchMode r) forceIndex)
                      (w2, r\<lparr>taskPending := False\<rparr>) qs of (w3, r1) \<Rightarrow>
                 (if \<not> hasItems (remainingFetchMap r1)
                  then (w3, setReadyState (noPartial\<lparr>p_done := Some True, p_ready := Some True\<rparr>) r1)
                  else if \<not> hasItems (remainingRequiredFetchMap r1)
                  then (w3, setReadyState (noPartial\<lparr>p_ready := Some True\<rparr>) r1)
                  else (w3, case setReadyState (noPartial\<lparr>p_ready := Some False\<rparr>) r1 of
                              Inl x \<Rightarrow> Inl x
                            | Inr r2 \<Rightarrow> Inr (r2\<lparr>diskPending := Suc (diskPending r2)\<rparr>)))))))"

text \<open>The callback given to \<open>storeData.runWithDiskCache\<close>, when the store runs it.\<close>

definition diskCacheCallback :: "(query \<Rightarrow> bool) \<Rightarrow> runner \<Rightarrow> runner result" where
  "diskCacheCallback checkRelayQueryData r =
     (if hasItems (remainingRequiredFetchMap r) then
        (if list_all (\<lambda>(k, fetch). canResolve checkRelayQueryData fetch) (remainingRequiredFetchMap r)
         then setReadyState (noPartial\<lparr>p_ready := Some True, p_stale := Some True\<rparr>) r
         else Inr r)
      else Inr r)"

definition abort :: "runner \<Rightarrow> runner result" where
  "abort r = setReadyState (noPartial\<lparr>p_aborted := Some True\<rparr>) r"

definition runQueries :: "query list \<Rightarrow> FetchMode \<Rightarrow> QueryRunnerProfiles \<Rightarrow> runner" where
  "runQueries qs fm prof =
     \<lparr>queries = qs, fetchMode = fm, profilers = prof,
      readyState = \<lparr>rs_aborted = False, rs_done = False, rs_error = None,
                    rs_ready = False, rs_stale = False\<rparr>,
      scheduled = False,
      remainingFetchMap = [], remainingRequiredFetchMap = [],
      taskPending = True, diskPending = 0, immediates = 0,
      delivered = [], emitted = [],
      stopped = [pr_initialize prof], uncaught = []\<rparr>"

text \<open>The two \<open>forEachObject\<close> loops of \<open>run\<close> and the one of \<open>forceFetch\<close>.\<close>

fun diffEach :: "'sp collaborators \<Rightarrow> (string \<times> query option) list \<Rightarrow> query list" where
  "diffEach c [] = []"
| "diffEach c ((name, None) # qs) = diffEach c qs"
| "diffEach c ((name, Some q) # qs) = diffRelayQuery c q @ diffEach c qs"

fun pushEach :: "(string \<times> query option) list \<Rightarrow> query list" where
  "pushEach [] = []"
| "pushEach ((name, None) # qs) = pushEach qs"
| "pushEach ((name, Some q) # qs) = q # pushEach qs"

definition run :: "'sp collaborators \<Rightarrow> (string \<times> query option) list \<Rightarrow> FetchMode option \<Rightarrow> runner" where
  "run c querySet fetchModeArg =
     (let fm = (case fetchModeArg of None \<Rightarrow> FETCH_MODE_CLIENT | Some m \<Rightarrow> m);
          prof = createProfiles fm;
          diffQueries = (if fm = FETCH_MODE_CLIENT then diffEach c querySet else pushEach querySet)
      in runQueries diffQueries fm prof)"

definition forceFetch :: "(string \<times> query option) list \<Rightarrow> runner" where
  "forceFetch querySet =
     (let fm = FETCH_MODE_REFETCH;
          prof = createProfiles fm;
          qs = pushEach querySet
      in runQueries qs fm prof)"

section \<open>The event loop around one invocation\<close>

text \<open>
  What can happen to an invocation after \<open>runQueries\<close> has returned: the scheduler runs
  the awaited task, the store runs the disk cache callback (with the answers of
  \<open>checkRelayQueryData\<close> on the queued store at that moment), a pending fetch resolves
  (with the answers of \<open>isResolvable\<close> at that moment) or rejects, the caller calls
  \<open>abort\<close>, or a callback given to \<open>resolveImmediate\<close> runs.
\<close>

datatype event =
    RunTask
  | DiskCache "query \<Rightarrow> bool"
  | Resolved PendingFetch "PendingFetch \<Rightarrow> bool"
  | Rejected PendingFetch Error
  | Abort
  | Immediate

definition step :: "'sp collaborators \<Rightarrow> event \<Rightarrow> world \<times> runner \<Rightarrow> world \<times> runner result" where
  "step c ev s =
     (case s of (w, r) \<Rightarrow>
        (case ev of
           RunTask \<Rightarrow> (if taskPending r then registration c (w, r) else (w, Inr r))
         | DiskCache chk \<Rightarrow>
             (if 0 < diskPending r
              then (w, diskCacheCallback chk (r\<lparr>diskPending := diskPending r - 1\<rparr>))
              else (w, Inr r))
         | Resolved pf isResolvable \<Rightarrow> (trackerSettle pf w, onResolved isResolvable pf r)
         | Rejected pf err \<Rightarrow> (trackerSettle pf w, onRejected pf err r)
         | Abort \<Rightarrow> (w, abort r)
         | Immediate \<Rightarrow> (w, Inr (immediate r))))"

text \<open>An exception ends the handler that threw it; the closure lives on.\<close>

definition settle :: "world \<times> runner result \<Rightarrow> world \<times> runner" where
  "settle x =
     (case x of
        (w, Inr r) \<Rightarrow> (w, r)
      | (w, Inl (e, r)) \<Rightarrow> (w, r\<lparr>uncaught := uncaught r @ [e]\<rparr>))"

fun exec :: "'sp collaborators \<Rightarrow> event list \<Rightarrow> world \<times> runner \<Rightarrow> world \<times> runner" where
  "exec c [] s = s"
| "exec c (ev # evs) s = exec c evs (settle (step c ev s))"

definition emptyWorld :: world where
  "emptyWorld = \<lparr>pendingFetches = [], started = [], requested = [], forceIndexCounter = 0,
                 warnings = [], splitCalls = []\<rparr>"

section \<open>Vocabulary of the properties\<close>

text \<open>
  A ready state is live while it is neither aborted nor done nor in error: the states in
  which \<open>setReadyState\<close> reaches its merge. A partial is closing when it sets one of the
  three.
\<close>

definition live :: "ReadyState \<Rightarrow> bool" where
  "live s = (\<not> rs_aborted s \<and> \<not> rs_done s \<and> rs_error s = None)"

definition closing :: "PartialReadyState \<Rightarrow> bool" where
  "closing p = (p_aborted p = Some True \<or> p_done p = Some True \<or> p_error p \<noteq> None)"


text \<open>Neither \<open>ready\<close> nor \<open>done\<close> goes from true to false, from one state to the next.\<close>

definition noRevert :: "ReadyState \<Rightarrow> ReadyState \<Rightarrow> bool" where
  "noRevert s t = ((rs_ready s \<longrightarrow> rs_ready t) \<and> (rs_done s \<longrightarrow> rs_done t))"

fun neverReverts :: "ReadyState list \<Rightarrow> bool" where
  "neverReverts [] = True"
| "neverReverts [s] = True"
| "neverReverts (s # t # ss) = (noRevert s t \<and> neverReverts (t # ss))"

text \<open>
  What holds of a closure at every moment: at most one callback is with
  \<open>resolveImmediate\<close>, and one is exactly when \<open>scheduled\<close> is set; before the
  awaited task has run the maps are empty and the state is ready only if it is no longer
  live; the states delivered so far never revert, and the current state does not revert
  the last of them.
\<close>

definition runnerInv :: "runner \<Rightarrow> bool" where
  "runnerInv r =
     (immediates r = (if scheduled r then 1 else 0) \<and>
      (taskPending r \<longrightarrow> remainingFetchMap r = [] \<and> remainingRequiredFetchMap r = [] \<and>
         (rs_ready (readyState r) \<longrightarrow> \<not> live (readyState r))) \<and>
      (delivered r \<noteq> [] \<longrightarrow> noRevert (last (delivered r)) (readyState r)) \<and>
      neverReverts (delivered r))"

text \<open>
  How a later closure relates to an earlier one: no revert, and from a state that is not
  live the state stays as it is, where the only deliveries are those already with
  \<open>resolveImmediate\<close>.
\<close>

definition follows :: "runner \<Rightarrow> runner \<Rightarrow> bool" where
  "follows r r' =
     (noRevert (readyState r) (readyState r') \<and>
      (\<not> live (readyState r) \<longrightarrow>
         readyState r' = readyState r \<and>
         (\<exists>k. delivered r' = delivered r @ replicate k (readyState r) \<and>
              k + immediates r' = immediates r)))"

section \<open>Example data\<close>

definition exCollab :: "query list collaborators" where
  "exCollab = \<lparr>supports = (\<lambda>feature. False), diffRelayQuery = (\<lambda>q. [q]),
     splitDeferredRelayQueries = (\<lambda>q. [q]), flattenSplitRelayQueries = (\<lambda>qs. qs)\<rparr>"

definition exRequired :: query where
  "exRequired = \<lparr>getID = ''q1'', getName = ''A'', isDeferred = False, hasDeferredDescendant = False\<rparr>"

definition exDeferred :: query where
  "exDeferred = \<lparr>getID = ''q2'', getName = ''B'', isDeferred = True, hasDeferredDescendant = False\<rparr>"

definition exFetch :: "query \<Rightarrow> nat \<Rightarrow> PendingFetch" where
  "exFetch q n = \<lparr>pf_query = q, pf_fetchMode = FETCH_MODE_CLIENT, pf_forceIndex = None, pf_serial = n\<rparr>"

section \<open>The ready state machine: one call\<close>

lemmas exEval =
  exCollab_def exRequired_def exDeferred_def exFetch_def emptyWorld_def run_def forceFetch_def
  runQueries_def createProfiles_def step_def settle_def registration_def
  splitAndFlattenQueries_def registerQuery_def trackerAdd_def trackerSettle_def
  generateForceIndex_def setReadyState_def mergeReadyState_def noPartial_def hasItems_def
  immediate_def abort_def onResolved_def onRejected_def diskCacheCallback_def canResolve_def
  stateOf_def Let_def

lemma setReadyState_not_live:
  "\<not> live (readyState r) \<Longrightarrow> stateOf (setReadyState p r) = r\<lparr>emitted := emitted r @ [p]\<rparr>"
  by (auto simp add: setReadyState_def live_def stateOf_def Let_def)

lemma setReadyState_live:
  "live (readyState r) \<Longrightarrow>
   setReadyState p r =
     Inr (r\<lparr>emitted := emitted r @ [p],
            stopped := stopped r
               @ (if p_ready p = Some True \<and> \<not> rs_ready (readyState r) then [pr_ready (profilers r)] else [])
               @ (if p_done p = Some True then [pr_done (profilers r)] else []),
            readyState := mergeReadyState (readyState r) p,
            scheduled := True,
            immediates := (if scheduled r then immediates r else Suc (immediates r))\<rparr>)"
  by (simp add: setReadyState_def live_def Let_def)



lemma noRevert_refl [simp]: "noRevert s s"
  by (simp add: noRevert_def)

lemma noRevert_trans: "noRevert s t \<Longrightarrow> noRevert t u \<Longrightarrow> noRevert s u"
  by (simp add: noRevert_def)

lemma neverReverts_snoc:
  "neverReverts ds \<Longrightarrow> (ds \<noteq> [] \<longrightarrow> noRevert (last ds) s) \<Longrightarrow> neverReverts (ds @ [s])"
  by (induction ds rule: neverReverts.induct) auto

lemma follows_refl [simp]: "follows r r"
  by (simp add: follows_def)

lemma follows_trans: "follows r r1 \<Longrightarrow> follows r1 r2 \<Longrightarrow> follows r r2"
  unfolding follows_def
  apply (intro conjI impI)
    apply (blast intro: noRevert_trans)
   apply simp
  apply (elim conjE)
  apply simp
  apply (elim exE conjE)
  subgoal for k ka
    apply (rule exI[of _ "k + ka"])
    apply (simp add: replicate_add)
    done
  done

text \<open>setReadyState under a partial that cannot take ready back.\<close>

lemma setReadyState_inv:
  assumes "runnerInv r"
      and "p_ready p = Some False \<longrightarrow> rs_ready (readyState r) \<longrightarrow> \<not> live (readyState r)"
      and "taskPending r \<longrightarrow> p_ready p = Some True \<longrightarrow> closing p"
  shows "runnerInv (stateOf (setReadyState p r)) \<and> follows r (stateOf (setReadyState p r))"
proof (cases "live (readyState r)")
  case False
  then show ?thesis using assms(1)
    by (simp add: setReadyState_not_live runnerInv_def follows_def)
next
  case True
  have nr: "noRevert (readyState r) (mergeReadyState (readyState r) p)"
    using True assms(2)
    by (auto simp: noRevert_def mergeReadyState_def live_def split: option.splits)
  have tp: "taskPending r \<Longrightarrow> rs_ready (mergeReadyState (readyState r) p) \<Longrightarrow>
            \<not> live (mergeReadyState (readyState r) p)"
    using assms(1,3) True
    by (auto simp: runnerInv_def mergeReadyState_def live_def closing_def split: option.splits)
  show ?thesis
    using True assms(1) nr tp
    by (auto simp: setReadyState_live stateOf_def runnerInv_def follows_def
             intro: noRevert_trans)
qed

lemma immediate_inv:
  assumes "runnerInv r"
  shows "runnerInv (immediate r) \<and> follows r (immediate r)"
proof (cases "immediates r = 0")
  case True
  then show ?thesis using assms by (simp add: immediate_def)
next
  case False
  then have i: "immediates r = 1" "scheduled r"
    using assms by (auto simp: runnerInv_def split: if_splits)
  have "runnerInv (immediate r)"
    using assms i by (simp add: immediate_def runnerInv_def neverReverts_snoc)
  moreover have "follows r (immediate r)"
    using i by (auto simp: immediate_def follows_def intro: exI[of _ 1])
  ultimately show ?thesis by simp
qed

section \<open>The invariant through every handler\<close>

lemma maps_inv:
  assumes "runnerInv r" and "taskPending r \<longrightarrow> m1 = [] \<and> m2 = []"
  shows "runnerInv (r\<lparr>remainingFetchMap := m1, remainingRequiredFetchMap := m2\<rparr>) \<and>
         follows r (r\<lparr>remainingFetchMap := m1, remainingRequiredFetchMap := m2\<rparr>)"
  using assms by (auto simp: runnerInv_def follows_def)

lemma delete_Nil_iff: "m = [] \<Longrightarrow> AList.delete k m = []"
  by simp

lemma onResolved_inv:
  assumes "runnerInv r"
  shows "runnerInv (stateOf (onResolved f pf r)) \<and> follows r (stateOf (onResolved f pf r))"
proof -
  define k where "k = getID (pf_query pf)"
  define r2 where "r2 = r\<lparr>remainingFetchMap := AList.delete k (remainingFetchMap r),
     remainingRequiredFetchMap := (if \<not> isDeferred (pf_query pf)
        then AList.delete k (remainingRequiredFetchMap r) else remainingRequiredFetchMap r)\<rparr>"
  have m: "taskPending r \<longrightarrow> AList.delete k (remainingFetchMap r) = [] \<and>
        (if \<not> isDeferred (pf_query pf)
        then AList.delete k (remainingRequiredFetchMap r) else remainingRequiredFetchMap r) = []"
    using assms by (simp add: runnerInv_def)
  have i2: "runnerInv r2" and f2: "follows r r2"
    using maps_inv[OF assms m] by (simp_all add: r2_def)
  have tp2: "taskPending r2 \<Longrightarrow> remainingFetchMap r2 = []"
    using i2 by (simp add: runnerInv_def)
  let ?pa = "noPartial\<lparr>p_done := Some False, p_ready := Some True, p_stale := Some False\<rparr>"
  let ?pb = "noPartial\<lparr>p_done := Some True, p_ready := Some True, p_stale := Some False\<rparr>"
  have e: "onResolved f pf r =
     (if hasItems (remainingRequiredFetchMap r2) then Inr r2
      else if list_ex (\<lambda>(k, fetch). f fetch) (remainingFetchMap r2) then Inr r2
      else if hasItems (remainingFetchMap r2) then setReadyState ?pa r2
      else setReadyState ?pb r2)"
    by (simp add: onResolved_def Let_def r2_def k_def)
  have a: "hasItems (remainingFetchMap r2) \<Longrightarrow>
        runnerInv (stateOf (setReadyState ?pa r2)) \<and> follows r2 (stateOf (setReadyState ?pa r2))"
    by (rule setReadyState_inv[OF i2]) (use tp2 in \<open>auto simp: noPartial_def hasItems_def\<close>)
  have b: "runnerInv (stateOf (setReadyState ?pb r2)) \<and> follows r2 (stateOf (setReadyState ?pb r2))"
    by (rule setReadyState_inv[OF i2]) (auto simp: noPartial_def closing_def)
  show ?thesis
    unfolding e using i2 f2 a b
    by (auto simp: stateOf_def intro: follows_trans)
qed

lemma onRejected_inv:
  assumes "runnerInv r"
  shows "runnerInv (stateOf (onRejected pf err r)) \<and> follows r (stateOf (onRejected pf err r))"
proof -
  let ?p = "noPartial\<lparr>p_error := Some err\<rparr>"
  have s: "runnerInv (stateOf (setReadyState ?p r)) \<and> follows r (stateOf (setReadyState ?p r))"
    by (rule setReadyState_inv[OF assms]) (auto simp: noPartial_def)
  show ?thesis
  proof (cases "setReadyState ?p r")
    case (Inl x)
    then show ?thesis using s by (simp add: onRejected_def stateOf_def)
  next
    case (Inr r0)
    then have i0: "runnerInv r0" and f0: "follows r r0" using s by (simp_all add: stateOf_def)
    define k where "k = getID (pf_query pf)"
    have m: "taskPending r0 \<longrightarrow> AList.delete k (remainingFetchMap r0) = [] \<and>
        (if \<not> isDeferred (pf_query pf)
        then AList.delete k (remainingRequiredFetchMap r0) else remainingRequiredFetchMap r0) = []"
      using i0 by (simp add: runnerInv_def)
    have "stateOf (onRejected pf err r) = r0\<lparr>remainingFetchMap := AList.delete k (remainingFetchMap r0),
       remainingRequiredFetchMap := (if \<not> isDeferred (pf_query pf)
        then AList.delete k (remainingRequiredFetchMap r0) else remainingRequiredFetchMap r0)\<rparr>"
      using Inr by (simp add: onRejected_def stateOf_def Let_def k_def)
    then show ?thesis using maps_inv[OF i0 m] f0 by (auto intro: follows_trans)
  qed
qed

lemma abort_inv:
  assumes "runnerInv r"
  shows "runnerInv (stateOf (abort r)) \<and> follows r (stateOf (abort r))"
  unfolding abort_def
  by (rule setReadyState_inv[OF assms]) (auto simp: noPartial_def closing_def)

lemma diskCacheCallback_inv:
  assumes "runnerInv r"
  shows "runnerInv (stateOf (diskCacheCallback chk r)) \<and> follows r (stateOf (diskCacheCallback chk r))"
proof (cases "hasItems (remainingRequiredFetchMap r) \<and>
     list_all (\<lambda>(k, fetch). canResolve chk fetch) (remainingRequiredFetchMap r)")
  case True
  then have "\<not> taskPending r" using assms by (auto simp: runnerInv_def hasItems_def)
  then have "runnerInv (stateOf (setReadyState (noPartial\<lparr>p_ready := Some True, p_stale := Some True\<rparr>) r)) \<and>
      follows r (stateOf (setReadyState (noPartial\<lparr>p_ready := Some True, p_stale := Some True\<rparr>) r))"
    by (intro setReadyState_inv[OF assms]) (auto simp: noPartial_def)
  then show ?thesis using True by (simp add: diskCacheCallback_def)
next
  case False
  then show ?thesis using assms by (auto simp: diskCacheCallback_def stateOf_def)
qed

lemma registerQuery_frame:
  "registerQuery fm fi (w, r) q = (w', r') \<Longrightarrow>
   r' = r\<lparr>remainingFetchMap := remainingFetchMap r',
          remainingRequiredFetchMap := remainingRequiredFetchMap r'\<rparr>"
  by (auto simp: registerQuery_def Let_def split: prod.splits)

lemma foldl_registerQuery_frame:
  "foldl (registerQuery fm fi) (w, r) qs = (w', r') \<Longrightarrow>
   r' = r\<lparr>remainingFetchMap := remainingFetchMap r',
          remainingRequiredFetchMap := remainingRequiredFetchMap r'\<rparr>"
proof (induction qs arbitrary: w r)
  case Nil
  then show ?case by simp
next
  case (Cons q qs)
  obtain w1 r1 where s: "registerQuery fm fi (w, r) q = (w1, r1)" by (cases "registerQuery fm fi (w, r) q")
  from Cons.prems s have "foldl (registerQuery fm fi) (w1, r1) qs = (w', r')" by simp
  from Cons.IH[OF this] registerQuery_frame[OF s] show ?case
    by (metis (no_types, lifting) runner.surjective runner.update_convs(6) runner.update_convs(7))
qed

lemma registration_unfold:
  obtains fi w2 w3 r1 qs where
    "foldl (registerQuery (fetchMode r) fi) (w2, r\<lparr>taskPending := False\<rparr>) qs = (w3, r1)"
    "registration c (w, r) =
       (if \<not> hasItems (remainingFetchMap r1)
        then (w3, setReadyState (noPartial\<lparr>p_done := Some True, p_ready := Some True\<rparr>) r1)
        else if \<not> hasItems (remainingRequiredFetchMap r1)
        then (w3, setReadyState (noPartial\<lparr>p_ready := Some True\<rparr>) r1)
        else (w3, case setReadyState (noPartial\<lparr>p_ready := Some False\<rparr>) r1 of
                    Inl x \<Rightarrow> Inl x
                  | Inr r2 \<Rightarrow> Inr (r2\<lparr>diskPending := Suc (diskPending r2)\<rparr>)))"
proof -
  obtain fi w1 where a: "(if fetchMode r = FETCH_MODE_REFETCH
               then (case generateForceIndex w of (n, w0) \<Rightarrow> (Some n, w0))
               else (None, w)) = (fi, w1)" by fastforce
  obtain qs w2 where b: "splitAndFlattenQueries c (queries r) w1 = (qs, w2)" by fastforce
  obtain w3 r1 where d: "foldl (registerQuery (fetchMode r) fi) (w2, r\<lparr>taskPending := False\<rparr>) qs = (w3, r1)"
    by fastforce
  show thesis
    by (rule that[OF d]) (simp add: registration_def a b d)
qed

lemma uncaught_inv [simp]:
  "runnerInv (x\<lparr>uncaught := n\<rparr>) = runnerInv x"
  "follows y (x\<lparr>uncaught := n\<rparr>) = follows y x"
  "runnerInv (x\<lparr>diskPending := m\<rparr>) = runnerInv x"
  "follows y (x\<lparr>diskPending := m\<rparr>) = follows y x"
  "follows (y\<lparr>diskPending := m\<rparr>) x = follows y x"
  by (simp_all add: runnerInv_def follows_def)

lemma registration_inv:
  assumes "runnerInv r" and "taskPending r"
  shows "runnerInv (stateOf (snd (registration c (w, r)))) \<and>
         follows r (stateOf (snd (registration c (w, r))))"
proof -
  obtain fi w2 w3 r1 qs where
    d: "foldl (registerQuery (fetchMode r) fi) (w2, r\<lparr>taskPending := False\<rparr>) qs = (w3, r1)" and
    e: "registration c (w, r) =
       (if \<not> hasItems (remainingFetchMap r1)
        then (w3, setReadyState (noPartial\<lparr>p_done := Some True, p_ready := Some True\<rparr>) r1)
        else if \<not> hasItems (remainingRequiredFetchMap r1)
        then (w3, setReadyState (noPartial\<lparr>p_ready := Some True\<rparr>) r1)
        else (w3, case setReadyState (noPartial\<lparr>p_ready := Some False\<rparr>) r1 of
                    Inl x \<Rightarrow> Inl x
                  | Inr r2 \<Rightarrow> Inr (r2\<lparr>diskPending := Suc (diskPending r2)\<rparr>)))"
    by (rule registration_unfold)
  have r1: "r1 = r\<lparr>taskPending := False, remainingFetchMap := remainingFetchMap r1,
          remainingRequiredFetchMap := remainingRequiredFetchMap r1\<rparr>"
    using foldl_registerQuery_frame[OF d] by simp
  have i1: "runnerInv r1" and f1: "follows r r1" and t1: "\<not> taskPending r1"
    and l1: "rs_ready (readyState r1) \<longrightarrow> \<not> live (readyState r1)"
    using assms by (subst r1, simp add: runnerInv_def follows_def)+
  have a: "runnerInv (stateOf (setReadyState p r1)) \<and> follows r1 (stateOf (setReadyState p r1))" for p
    by (rule setReadyState_inv[OF i1]) (use t1 l1 in auto)
  let ?p = "noPartial\<lparr>p_ready := Some False\<rparr>"
  have c: "runnerInv (stateOf (case setReadyState ?p r1 of Inl x \<Rightarrow> Inl x
                  | Inr r2 \<Rightarrow> Inr (r2\<lparr>diskPending := Suc (diskPending r2)\<rparr>))) \<and>
           follows r1 (stateOf (case setReadyState ?p r1 of Inl x \<Rightarrow> Inl x
                  | Inr r2 \<Rightarrow> Inr (r2\<lparr>diskPending := Suc (diskPending r2)\<rparr>)))"
  proof (cases "setReadyState ?p r1")
    case (Inl x)
    then show ?thesis using a[of ?p] by simp
  next
    case (Inr r2)
    then have "runnerInv r2 \<and> follows r1 r2" using a[of ?p] by (simp add: stateOf_def)
    then show ?thesis using Inr by (simp add: stateOf_def)
  qed
  show ?thesis
    unfolding e using a c f1
    by (auto intro: follows_trans)
qed

lemma settle_stateOf:
  "runnerInv (snd (settle (w, x))) = runnerInv (stateOf x)"
  "follows r (snd (settle (w, x))) = follows r (stateOf x)"
  by (auto simp: settle_def stateOf_def split: sum.splits)

lemma step_inv:
  assumes "runnerInv r"
  shows "runnerInv (snd (settle (step c ev (w, r)))) \<and> follows r (snd (settle (step c ev (w, r))))"
proof (cases ev)
  case RunTask
  then show ?thesis
    using registration_inv[OF assms, of c w] assms
    by (cases "registration c (w, r)") (auto simp: step_def settle_stateOf stateOf_def)
next
  case (DiskCache chk)
  have "runnerInv (r\<lparr>diskPending := diskPending r - 1\<rparr>)" using assms by simp
  from diskCacheCallback_inv[OF this, of chk] show ?thesis
    using DiskCache assms by (auto simp: step_def settle_stateOf stateOf_def)
next
  case (Resolved pf f)
  then show ?thesis using onResolved_inv[OF assms, of f pf]
    by (simp add: step_def settle_stateOf)
next
  case (Rejected pf err)
  then show ?thesis using onRejected_inv[OF assms, of pf err]
    by (simp add: step_def settle_stateOf)
next
  case Abort
  then show ?thesis using abort_inv[OF assms]
    by (simp add: step_def settle_stateOf)
next
  case Immediate
  then show ?thesis using immediate_inv[OF assms]
    by (simp add: step_def settle_stateOf stateOf_def)
qed

lemma exec_inv:
  "runnerInv r \<Longrightarrow> runnerInv (snd (exec c evs (w, r))) \<and> follows r (snd (exec c evs (w, r)))"
proof (induction evs arbitrary: w r)
  case Nil
  then show ?case by simp
next
  case (Cons ev evs)
  obtain w1 r1 where s: "settle (step c ev (w, r)) = (w1, r1)" by fastforce
  from step_inv[OF Cons.prems, of c ev w] s have "runnerInv r1" "follows r r1" by simp_all
  with Cons.IH[of r1 w1] s show ?case by (auto intro: follows_trans)
qed

lemma runQueries_inv: "runnerInv (runQueries qs fm prof)"
  by (simp add: runnerInv_def runQueries_def)

section \<open>Coalesced delivery\<close>



section \<open>Monotone progress and the freeze after abort\<close>

text \<open>
  Claim C1. For every invocation of \<open>run\<close> or \<open>forceFetch\<close> and every sequence of
  events after it, cut anywhere in two: \<open>ready\<close> and \<open>done\<close>, once true at the cut, are
  true at the end; in the sequence of states delivered to the callback neither field
  goes from true to false; and if the state is aborted at the cut, then at the end no
  field of the state has changed, the callback has been invoked at most once more (the
  delivery that was already scheduled, carrying the aborted state), and not at all if
  nothing was scheduled at the cut, whatever fetches resolved or rejected in between.
\<close>

theorem ready_done_never_revert_and_abort_freezes:
  assumes "r0 = run c querySet fm \<or> r0 = forceFetch querySet"
      and "exec c evs1 (w0, r0) = (w1, r1)"
      and "exec c evs2 (w1, r1) = (w2, r2)"
  shows "(rs_ready (readyState r1) \<longrightarrow> rs_ready (readyState r2)) \<and>
         (rs_done (readyState r1) \<longrightarrow> rs_done (readyState r2)) \<and>
         neverReverts (delivered r2) \<and>
         (rs_aborted (readyState r1) \<longrightarrow>
            readyState r2 = readyState r1 \<and>
            (\<exists>k\<le>1. delivered r2 = delivered r1 @ replicate k (readyState r1)) \<and>
            (\<not> scheduled r1 \<longrightarrow> delivered r2 = delivered r1))"
proof -
  have "runnerInv r0" using assms(1) by (auto simp: run_def forceFetch_def Let_def runQueries_inv)
  from exec_inv[OF this, of c evs1 w0] assms(2) have i1: "runnerInv r1" by simp
  from exec_inv[OF this, of c evs2 w1] assms(3) have i2: "runnerInv r2" and f: "follows r1 r2" by simp_all
  have im: "immediates r1 = (if scheduled r1 then 1 else 0)" using i1 by (simp add: runnerInv_def)
  have a: "rs_ready (readyState r1) \<longrightarrow> rs_ready (readyState r2)"
    and b: "rs_done (readyState r1) \<longrightarrow> rs_done (readyState r2)"
    using f by (simp_all add: follows_def noRevert_def)
  have d: "neverReverts (delivered r2)" using i2 by (simp add: runnerInv_def)
  have g: "readyState r2 = readyState r1 \<and>
            (\<exists>k\<le>1. delivered r2 = delivered r1 @ replicate k (readyState r1)) \<and>
            (\<not> scheduled r1 \<longrightarrow> delivered r2 = delivered r1)" if "rs_aborted (readyState r1)"
  proof -
    from that f obtain k where k: "readyState r2 = readyState r1"
      "delivered r2 = delivered r1 @ replicate k (readyState r1)" "k + immediates r2 = immediates r1"
      by (auto simp: follows_def live_def)
    have "k \<le> 1" using k(3) im by (simp split: if_splits)
    moreover have "\<not> scheduled r1 \<Longrightarrow> k = 0" using k(3) im by simp
    ultimately show ?thesis using k(1,2) by auto
  qed
  show ?thesis using a b d g by blast
qed

theorem ready_done_never_revert_and_abort_freezes_witness:
  "rs_aborted (readyState (snd (exec exCollab [RunTask, Immediate, Abort]
       (emptyWorld, run exCollab [(''a'', Some exRequired)] None)))) \<and>
   delivered (snd (exec exCollab [Immediate, Resolved (exFetch exRequired 0) (\<lambda>f. False), Immediate]
      (exec exCollab [RunTask, Immediate, Abort]
         (emptyWorld, run exCollab [(''a'', Some exRequired)] None)))) =
     [\<lparr>rs_aborted = False, rs_done = False, rs_error = None, rs_ready = False, rs_stale = False\<rparr>,
      \<lparr>rs_aborted = True, rs_done = False, rs_error = None, rs_ready = False, rs_stale = False\<rparr>] \<and>
   neverReverts (delivered (snd (exec exCollab [Immediate, Resolved (exFetch exRequired 0) (\<lambda>f. False), Immediate]
      (exec exCollab [RunTask, Immediate, Abort]
         (emptyWorld, run exCollab [(''a'', Some exRequired)] None)))))"
proof -
  let ?s0 = "(emptyWorld, run exCollab [(''a'', Some exRequired)] None)"
  let ?s1 = "exec exCollab [RunTask, Immediate, Abort] ?s0"
  let ?s2 = "exec exCollab [Immediate, Resolved (exFetch exRequired 0) (\<lambda>f. False), Immediate] ?s1"
  have a: "rs_aborted (readyState (snd ?s1))"
    by (simp add: exEval)
  have d1: "delivered (snd ?s1) =
     [\<lparr>rs_aborted = False, rs_done = False, rs_error = None, rs_ready = False, rs_stale = False\<rparr>]"
    by (simp add: exEval)
  have r1: "readyState (snd ?s1) =
     \<lparr>rs_aborted = True, rs_done = False, rs_error = None, rs_ready = False, rs_stale = False\<rparr>"
    by (simp add: exEval)
  have l2: "length (delivered (snd ?s2)) = 2"
    by (simp add: exEval)
  have e1: "exec exCollab [RunTask, Immediate, Abort] ?s0 = (fst ?s1, snd ?s1)"
    by (rule prod.collapse [symmetric])
  have e2: "exec exCollab [Immediate, Resolved (exFetch exRequired 0) (\<lambda>f. False), Immediate]
              (fst ?s1, snd ?s1) = (fst ?s2, snd ?s2)"
    by (simp only: prod.collapse)
  from ready_done_never_revert_and_abort_freezes [OF disjI1 [OF refl] e1 e2]
  have n: "neverReverts (delivered (snd ?s2))"
    and k: "\<exists>k\<le>1. delivered (snd ?s2) = delivered (snd ?s1) @ replicate k (readyState (snd ?s1))"
    using a by simp_all
  from k l2 d1 have "delivered (snd ?s2) = delivered (snd ?s1) @ [readyState (snd ?s1)]"
    by (auto simp: le_Suc_eq)
  with a n d1 r1 show ?thesis by simp
qed

end
